theory Spec2Isabelle
  imports Complex_Main "HOL-Library.Sublist"
begin

unbundle bit_operations_syntax

section \<open>Data model of \<open>1_a.py\<close> (class \<open>PDFOutlineExtractor\<close>)\<close>

text \<open>
  Python floats (coordinates, font sizes) are idealised as exact rationals; Python's
  unbounded integers are \<open>int\<close>/\<open>nat\<close>. A string is a list of characters, each a code
  point below 256. White space is what \<open>str.isspace\<close> and the pattern \<open>\s\<close> accept on this
  range (code points 9 to 13, 28 to 32, 133 and 160); digits and letters are those of
  ASCII.

  Every exception that the code can raise is a value of \<open>error\<close>; a function that can
  raise returns \<open>error + 'a\<close> with \<open>Inl\<close> for the exception. \<open>DecoderError\<close> stands
  for any exception of the external decoder and \<open>OSError\<close> for any exception of the file
  system. The method \<open>detect_document_type\<close> is never
  called and is not modelled.
\<close>

datatype error =
    KeyError string
  | ZeroDivisionError
  | ValueError
  | IndexError
  | DecoderError string
  | OSError string

text \<open>
  The dictionaries that flow through the pipeline. The same Python \<open>dict\<close> type is used
  for the fragments built by \<open>extract_text_with_metadata\<close> and for the merged lines
  built by \<open>merge_by_line\<close>; they differ in their keys: only a fragment has \<open>"x"\<close>, only a
  merged line has \<open>"has_bold"\<close>. Such a key is an \<open>option\<close> field and reading it when
  absent is a \<open>KeyError\<close>. The keys \<open>font\<close>, \<open>bbox\<close>, \<open>y\<close>, \<open>width\<close>, \<open>height\<close>, \<open>page_width\<close>
  and \<open>page_height\<close> of a fragment are written once and never read; they are left out.
\<close>

record elem =
  el_text :: string
  el_size :: rat
  el_flags :: int
  el_page :: nat
  relative_x :: rat
  relative_y :: rat
  line_y :: rat
  el_x :: "rat option"
  has_bold :: "bool option"

record heading =
  h_level :: string
  h_text :: string
  h_page :: nat

record outline_rec =
  title :: string
  outline :: "heading list"

section \<open>Text helpers\<close>

definition is_space :: "char \<Rightarrow> bool" where
  "is_space c =
     (let n = (of_char c :: nat)
      in (9 \<le> n \<and> n \<le> 13) \<or> (28 \<le> n \<and> n \<le> 32) \<or> n = 133 \<or> n = 160)"

definition is_digit :: "char \<Rightarrow> bool" where
  "is_digit c = (let n = (of_char c :: nat) in 48 \<le> n \<and> n \<le> 57)"

definition is_upper :: "char \<Rightarrow> bool" where
  "is_upper c = (let n = (of_char c :: nat) in 65 \<le> n \<and> n \<le> 90)"

definition is_lower :: "char \<Rightarrow> bool" where
  "is_lower c = (let n = (of_char c :: nat) in 97 \<le> n \<and> n \<le> 122)"

definition to_upper :: "char \<Rightarrow> char" where
  "to_upper c = (if is_lower c then char_of ((of_char c :: nat) - 32) else c)"

definition to_lower :: "char \<Rightarrow> char" where
  "to_lower c = (if is_upper c then char_of ((of_char c :: nat) + 32) else c)"

text \<open>\<open>str.strip()\<close>: white space removed at both ends.\<close>

definition strip :: "string \<Rightarrow> string" where
  "strip s = rev (dropWhile is_space (rev (dropWhile is_space s)))"

text \<open>
  \<open>re.sub(r'\s+', ' ', text)\<close>: every maximal run of white space becomes one space. The
  flag says whether the previous character belonged to a run.
\<close>

fun sub_ws :: "bool \<Rightarrow> string \<Rightarrow> string" where
  "sub_ws in_run [] = []"
| "sub_ws in_run (c # cs) =
     (if is_space c then (if in_run then sub_ws True cs else CHR '' '' # sub_ws True cs)
      else c # sub_ws False cs)"

definition clean_text :: "string \<Rightarrow> string" where
  "clean_text t = strip (sub_ws False t)"

text \<open>\<open>" ".join(parts)\<close>\<close>

fun join_sp :: "string list \<Rightarrow> string" where
  "join_sp [] = []"
| "join_sp [p] = p"
| "join_sp (p # q # ps) = p @ '' '' @ join_sp (q # ps)"

definition is_bold :: "int \<Rightarrow> bool" where
  "is_bold flags = ((flags AND push_bit 4 1) \<noteq> 0)"

section \<open>Line Merger: \<open>merge_by_line\<close>\<close>

text \<open>
  Python's \<open>round\<close> on a float rounds to the nearest integer, a tie going to the even
  neighbour.
\<close>

definition py_round :: "rat \<Rightarrow> int" where
  "py_round q =
     (let f = \<lfloor>q\<rfloor>; d = q - of_int f
      in if d < 1 / 2 then f
         else if 1 / 2 < d then f + 1
         else if even f then f else f + 1)"

text \<open>\<open>round(elem["line_y"] / tol) * tol\<close>; the division raises for \<open>tol = 0\<close>.\<close>

definition line_key :: "rat \<Rightarrow> rat \<Rightarrow> error + rat" where
  "line_key y tol =
     (if tol = 0 then Inl ZeroDivisionError else Inr (of_int (py_round (y / tol)) * tol))"

text \<open>
  \<open>lines = defaultdict(list)\<close> is an association list in insertion order;
  \<open>lines[key].append(elem)\<close> appends to the key's group or opens a new group.
\<close>

fun append_to :: "rat \<Rightarrow> elem \<Rightarrow> (rat \<times> elem list) list \<Rightarrow> (rat \<times> elem list) list" where
  "append_to k e [] = [(k, [e])]"
| "append_to k e ((k', es) # rest) =
     (if k = k' then (k', es @ [e]) # rest else (k', es) # append_to k e rest)"

fun group_lines :: "elem list \<Rightarrow> rat \<Rightarrow> (rat \<times> elem list) list \<Rightarrow> error + (rat \<times> elem list) list" where
  "group_lines [] tol lines = Inr lines"
| "group_lines (e # es) tol lines =
     (case line_key (line_y e) tol of
        Inl err \<Rightarrow> Inl err
      | Inr key \<Rightarrow> group_lines es tol (append_to key e lines))"

text \<open>
  \<open>spans.sort(key=lambda e: e["x"])\<close>: the key is computed for every element first (a
  missing \<open>"x"\<close> raises), then the list is sorted stably by the keys.
\<close>

fun x_keys :: "elem list \<Rightarrow> error + rat list" where
  "x_keys [] = Inr []"
| "x_keys (e # es) =
     (case el_x e of
        None \<Rightarrow> Inl (KeyError ''x'')
      | Some v \<Rightarrow> (case x_keys es of Inl err \<Rightarrow> Inl err | Inr vs \<Rightarrow> Inr (v # vs)))"

definition sort_by_x :: "elem list \<Rightarrow> error + elem list" where
  "sort_by_x spans =
     (case x_keys spans of
        Inl err \<Rightarrow> Inl err
      | Inr ks \<Rightarrow> Inr (map snd (sort_key fst (zip ks spans))))"

text \<open>
  The body of the second loop for one key: \<open>None\<close> is the \<open>continue\<close> of a group whose
  text is empty.
\<close>

definition merge_group :: "rat \<Rightarrow> elem list \<Rightarrow> error + elem option" where
  "merge_group key spans0 =
     (case sort_by_x spans0 of
        Inl err \<Rightarrow> Inl err
      | Inr spans \<Rightarrow>
          (let full_text = clean_text (join_sp (map el_text spans))
           in if full_text = [] then Inr None
              else (case spans of
                      [] \<Rightarrow> Inl ValueError
                    | rep # others \<Rightarrow>
                        Inr (Some \<lparr> el_text = full_text,
                                    el_size = fold max (map el_size others) (el_size rep),
                                    el_flags = el_flags rep,
                                    el_page = el_page rep,
                                    relative_x = relative_x rep,
                                    relative_y = relative_y rep,
                                    line_y = key,
                                    el_x = None,
                                    has_bold = Some (list_ex (\<lambda>s. is_bold (el_flags s)) spans) \<rparr>))))"

fun merge_groups :: "(rat \<times> elem list) list \<Rightarrow> error + elem list" where
  "merge_groups [] = Inr []"
| "merge_groups ((key, spans) # rest) =
     (case merge_group key spans of
        Inl err \<Rightarrow> Inl err
      | Inr None \<Rightarrow> merge_groups rest
      | Inr (Some m) \<Rightarrow>
          (case merge_groups rest of Inl err \<Rightarrow> Inl err | Inr ms \<Rightarrow> Inr (m # ms)))"

text \<open>\<open>for key in sorted(lines)\<close> visits the groups by ascending key.\<close>

definition merge_by_line :: "elem list \<Rightarrow> rat \<Rightarrow> error + elem list" where
  "merge_by_line elements tol =
     (case group_lines elements tol [] of
        Inl err \<Rightarrow> Inl err
      | Inr lines \<Rightarrow> merge_groups (sort_key fst lines))"

section \<open>Font Statistics Analyzer: \<open>analyze_font_distribution\<close>\<close>

text \<open>
  \<open>Counter(sizes)\<close> is a dictionary in insertion order: the sizes in the order of their
  first occurrence, each with its number of occurrences.
\<close>

fun counter_add :: "rat \<Rightarrow> (rat \<times> nat) list \<Rightarrow> (rat \<times> nat) list" where
  "counter_add s [] = [(s, 1)]"
| "counter_add s ((k, n) # rest) =
     (if s = k then (k, n + 1) # rest else (k, n) # counter_add s rest)"

definition Counter :: "rat list \<Rightarrow> (rat \<times> nat) list" where
  "Counter sizes = fold counter_add sizes []"

text \<open>
  \<open>counts.most_common(1)\<close> is \<open>heapq.nlargest(1, items, key=count)\<close>, that is
  \<open>max(items, key=count)\<close>: the running best is replaced only by a strictly larger count.
\<close>

fun max_count :: "rat \<times> nat \<Rightarrow> (rat \<times> nat) list \<Rightarrow> rat \<times> nat" where
  "max_count best [] = best"
| "max_count best (it # its) = max_count (if snd best < snd it then it else best) its"

definition most_common_1 :: "(rat \<times> nat) list \<Rightarrow> (rat \<times> nat) list" where
  "most_common_1 counts = (case counts of [] \<Rightarrow> [] | c # cs \<Rightarrow> [max_count c cs])"

text \<open>
  \<open>sorted(set(xs), reverse=True)\<close>: the distinct values in descending order (the result
  does not depend on the iteration order of the set).
\<close>

definition sorted_set_desc :: "rat list \<Rightarrow> rat list" where
  "sorted_set_desc xs = rev (sort (remdups xs))"

text \<open>
  The threshold \<open>counts[size] < len(lines) * 0.4\<close> is taken in exact arithmetic;
  \<open>len(lines)\<close> counts all lines, also those of non-positive size. The debug prints are
  not modelled.
\<close>

definition analyze_font_distribution :: "elem list \<Rightarrow> error + (rat list \<times> rat)" where
  "analyze_font_distribution lines =
     (let sizes = map el_size (filter (\<lambda>l. 0 < el_size l) lines)
      in if sizes = [] then Inr ([], 12)
         else
           (let counts = Counter sizes
            in case most_common_1 counts of
                 [] \<Rightarrow> Inl IndexError
               | (base_size, _) # _ \<Rightarrow>
                   (let significant_sizes =
                          map fst (filter (\<lambda>(size, n). base_size < size \<and>
                                             of_nat n < of_nat (length lines) * (4 / 10 :: rat)) counts)
                    in Inr (take 3 (sorted_set_desc significant_sizes), base_size))))"

section \<open>Heading Classifier: \<open>is_heading_candidate\<close>\<close>

text \<open>\<open>str.isdigit()\<close> and \<open>str.isupper()\<close> on ASCII text.\<close>

definition isdigit :: "string \<Rightarrow> bool" where
  "isdigit s = (s \<noteq> [] \<and> list_all is_digit s)"

definition isupper :: "string \<Rightarrow> bool" where
  "isupper s = (list_ex is_upper s \<and> \<not> list_ex is_lower s)"

text \<open>\<open>re.match(r'^\d+[\.\)]', txt)\<close>: some digits, then a dot or a closing parenthesis.\<close>

definition match_numbered :: "string \<Rightarrow> bool" where
  "match_numbered s =
     (takeWhile is_digit s \<noteq> [] \<and>
      (case dropWhile is_digit s of [] \<Rightarrow> False | c # _ \<Rightarrow> c = CHR ''.'' \<or> c = CHR '')''))"

definition is_heading_candidate :: "elem \<Rightarrow> rat list \<Rightarrow> rat \<Rightarrow> error + bool" where
  "is_heading_candidate element sig_sizes base_size =
     (let txt = clean_text (el_text element)
      in if length txt < 3 \<or> isdigit txt then Inr False
         else if el_size element \<in> set sig_sizes then Inr True
         else (case has_bold element of
                 None \<Rightarrow> Inl (KeyError ''has_bold'')
               | Some b \<Rightarrow>
                   if b \<and> base_size \<le> el_size element then Inr True
                   else if isupper txt \<and> 6 < length txt then Inr True
                   else if match_numbered txt then Inr True
                   else if relative_y element < 2 / 10 then Inr True
                   else Inr False))"

text \<open>\<open>[el for el in merged if self.is_heading_candidate(el, sig_sizes, base_size)]\<close>\<close>

fun candidates_of :: "elem list \<Rightarrow> rat list \<Rightarrow> rat \<Rightarrow> error + elem list" where
  "candidates_of [] sig_sizes base_size = Inr []"
| "candidates_of (el # els) sig_sizes base_size =
     (case is_heading_candidate el sig_sizes base_size of
        Inl err \<Rightarrow> Inl err
      | Inr b \<Rightarrow>
          (case candidates_of els sig_sizes base_size of
             Inl err \<Rightarrow> Inl err
           | Inr cs \<Rightarrow> Inr (if b then el # cs else cs)))"

section \<open>Level Assigner: \<open>assign_heading_levels\<close>\<close>

text \<open>\<open>str(n)\<close> for a natural number, as in \<open>f"H{i+1}"\<close>.\<close>

fun str_nat :: "nat \<Rightarrow> string" where
  "str_nat n =
     (if n < 10 then [''0123456789'' ! n]
      else str_nat (n div 10) @ [''0123456789'' ! (n mod 10)])"

declare str_nat.simps [simp del]

text \<open>
  \<open>{size: f"H{i+1}" for i, size in enumerate(sig_sizes)}\<close>: the entries are stored from
  left to right, a later entry replacing an earlier one with the same size.
\<close>

fun level_entry :: "nat \<times> rat \<Rightarrow> (rat \<rightharpoonup> string) \<Rightarrow> (rat \<rightharpoonup> string)" where
  "level_entry (i, sz) m = m(sz \<mapsto> ''H'' @ str_nat (i + 1))"

definition level_map :: "rat list \<Rightarrow> (rat \<rightharpoonup> string)" where
  "level_map sig_sizes = fold level_entry (enumerate 0 sig_sizes) Map.empty"

definition assign_heading_levels :: "elem list \<Rightarrow> rat list \<Rightarrow> heading list" where
  "assign_heading_levels candidates sig_sizes =
     map (\<lambda>c. \<lparr> h_level = (case level_map sig_sizes (el_size c) of None \<Rightarrow> ''H3'' | Some l \<Rightarrow> l),
                h_text = clean_text (el_text c),
                h_page = el_page c \<rparr>) candidates"

section \<open>Title Selector: \<open>get_title\<close>\<close>

text \<open>
  \<open>sorted(cand, key=lambda x: x[0], reverse=True)\<close>: a stable sort in descending order
  (elements with equal keys keep their order).
\<close>

definition sorted_by_size_desc :: "(rat \<times> string) list \<Rightarrow> (rat \<times> string) list" where
  "sorted_by_size_desc cand = rev (sort_key fst (rev cand))"

text \<open>
  The candidate list is sorted only when it is not empty, and a sorted list is empty
  exactly when the candidate list is: the first case is the final \<open>return ""\<close>.
\<close>

definition title_candidates :: "elem list \<Rightarrow> (rat \<times> string) list" where
  "title_candidates first_page =
     map (\<lambda>e. (el_size e, clean_text (el_text e)))
       (filter (\<lambda>e. 10 < length (clean_text (el_text e)) \<and> relative_y e < 3 / 10) first_page)"

definition get_title :: "elem list list \<Rightarrow> string" where
  "get_title pages =
     (case pages of
        [] \<Rightarrow> []
      | first_page # _ \<Rightarrow>
          (case sorted_by_size_desc (title_candidates first_page) of
             [] \<Rightarrow> []
           | (_, txt) # _ \<Rightarrow> txt))"

section \<open>The decoded document and \<open>extract_text_with_metadata\<close>\<close>

text \<open>
  The decoder (\<open>pymupdf\<close>) is external. A document is the list of its pages; a page has
  its rectangle and the result of \<open>page.get_text("dict", flags=11)["blocks"]\<close>, which is
  either the blocks or the exception the decoder raises on a damaged page. A block has
  lines or not (\<open>"lines" in block\<close>); a line has a bounding box and spans.
\<close>

type_synonym bbox = "rat \<times> rat \<times> rat \<times> rat"

record span =
  span_text :: string
  span_font :: string
  span_size :: rat
  span_flags :: int
  span_bbox :: bbox

record pdf_line =
  line_bbox :: bbox
  spans :: "span list"

type_synonym block = "pdf_line list option"

record pdf_page =
  rect_width :: rat
  rect_height :: rat
  get_text :: "error + block list"

type_synonym doc = "pdf_page list"

text \<open>Nested iteration that appends to one list; the first exception ends it.\<close>

fun collect :: "('a \<Rightarrow> error + 'b list) \<Rightarrow> 'a list \<Rightarrow> error + 'b list" where
  "collect f [] = Inr []"
| "collect f (a # as) =
     (case f a of
        Inl err \<Rightarrow> Inl err
      | Inr bs \<Rightarrow> (case collect f as of Inl err \<Rightarrow> Inl err | Inr cs \<Rightarrow> Inr (bs @ cs)))"

text \<open>
  The body of the innermost loop. \<open>bbox[0] / rect.width\<close> and \<open>bbox[1] / rect.height\<close> are
  float divisions and raise for a zero divisor.
\<close>

definition span_elements :: "pdf_page \<Rightarrow> nat \<Rightarrow> pdf_line \<Rightarrow> span \<Rightarrow> error + elem list" where
  "span_elements page page_num line sp =
     (let text = strip (span_text sp)
      in if text = [] then Inr []
         else (case span_bbox sp of
                 (x0, y0, x1, y1) \<Rightarrow>
                   if rect_width page = 0 \<or> rect_height page = 0 then Inl ZeroDivisionError
                   else Inr [\<lparr> el_text = text,
                               el_size = span_size sp,
                               el_flags = span_flags sp,
                               el_page = page_num + 1,
                               relative_x = x0 / rect_width page,
                               relative_y = y0 / rect_height page,
                               line_y = fst (snd (line_bbox line)),
                               el_x = Some x0,
                               has_bold = None \<rparr>]))"

definition page_elements :: "pdf_page \<Rightarrow> nat \<Rightarrow> error + elem list" where
  "page_elements page page_num =
     (case get_text page of
        Inl err \<Rightarrow> Inl err
      | Inr blocks \<Rightarrow>
          collect (\<lambda>block. case block of
                     None \<Rightarrow> Inr []
                   | Some lines \<Rightarrow>
                       collect (\<lambda>line. collect (span_elements page page_num line) (spans line)) lines)
            blocks)"

fun extract_pages :: "nat \<Rightarrow> pdf_page list \<Rightarrow> error + elem list list" where
  "extract_pages page_num [] = Inr []"
| "extract_pages page_num (page # rest) =
     (case page_elements page page_num of
        Inl err \<Rightarrow> Inl err
      | Inr page_els \<Rightarrow>
          (case extract_pages (page_num + 1) rest of
             Inl err \<Rightarrow> Inl err
           | Inr pages \<Rightarrow> Inr (page_els # pages)))"

definition extract_text_with_metadata :: "doc \<Rightarrow> error + elem list list" where
  "extract_text_with_metadata d = extract_pages 0 d"

section \<open>Deduplication and the orchestrator: \<open>extract_outline\<close>, \<open>process_folder\<close>\<close>

text \<open>
  The loop of lines 167 to 173: \<open>seen\<close> is the set of keys already kept; a heading is kept
  when its key is new and its text has more than 3 characters.
\<close>

fun unique_headings :: "heading list \<Rightarrow> (string \<times> string) set \<Rightarrow> heading list" where
  "unique_headings [] seen = []"
| "unique_headings (h # hs) seen =
     (let key = (h_level h, h_text h)
      in if key \<notin> seen \<and> 3 < length (h_text h)
         then h # unique_headings hs (insert key seen)
         else unique_headings hs seen)"

text \<open>
  A path is modelled by what \<open>pathlib\<close> computes from it: its string, its \<open>name\<close> and its
  \<open>stem\<close>.
\<close>

record path =
  p_str :: string
  p_name :: string
  p_stem :: string

text \<open>\<open>str.replace('_', ' ')\<close> and \<open>str.title()\<close> (ASCII).\<close>

definition replace_underscores :: "string \<Rightarrow> string" where
  "replace_underscores s = map (\<lambda>c. if c = CHR ''_'' then CHR '' '' else c) s"

fun title_case :: "bool \<Rightarrow> string \<Rightarrow> string" where
  "title_case previous_is_cased [] = []"
| "title_case previous_is_cased (c # cs) =
     (if is_lower c then (if previous_is_cased then c else to_upper c) # title_case True cs
      else if is_upper c then (if previous_is_cased then to_lower c else c) # title_case True cs
      else c # title_case False cs)"

text \<open>
  Lines 155 to 175: everything the \<open>try\<close> block does once the pages are extracted and the
  document is closed.
\<close>

definition outline_of_pages :: "path \<Rightarrow> elem list list \<Rightarrow> error + outline_rec" where
  "outline_of_pages pdf_path pages =
     (let t = get_title pages;
          t = (if t = [] then title_case False (replace_underscores (p_stem pdf_path)) else t);
          all_elements = concat pages
      in case merge_by_line all_elements 3 of
           Inl err \<Rightarrow> Inl err
         | Inr merged \<Rightarrow>
             (case analyze_font_distribution merged of
                Inl err \<Rightarrow> Inl err
              | Inr (sig_sizes, base_size) \<Rightarrow>
                  (case candidates_of merged sig_sizes base_size of
                     Inl err \<Rightarrow> Inl err
                   | Inr candidates \<Rightarrow>
                       (let headings = assign_heading_levels candidates sig_sizes
                        in Inr \<lparr> title = t, outline = unique_headings headings {} \<rparr>))))"

text \<open>
  The effects of the orchestrator, in the order in which they happen: opening and closing
  the decoder handle of a document, the failure report of the exception handler, and the
  output file written for a document. The progress messages are not modelled.
\<close>

datatype event =
    Opened path
  | Closed path
  | Failed path error
  | Written string outline_rec

text \<open>
  The \<open>try\<close> block of \<open>extract_outline\<close>: its result or the exception that leaves it, and
  its effects up to there. \<open>pymupdf.open\<close> is the parameter \<open>open_doc\<close>.
\<close>

definition try_extract :: "(path \<Rightarrow> error + doc) \<Rightarrow> path \<Rightarrow> (error + outline_rec) \<times> event list" where
  "try_extract open_doc pdf_path =
     (case open_doc pdf_path of
        Inl err \<Rightarrow> (Inl err, [])
      | Inr d \<Rightarrow>
          (case extract_text_with_metadata d of
             Inl err \<Rightarrow> (Inl err, [Opened pdf_path])
           | Inr pages \<Rightarrow> (outline_of_pages pdf_path pages, [Opened pdf_path, Closed pdf_path])))"

definition extract_outline :: "(path \<Rightarrow> error + doc) \<Rightarrow> path \<Rightarrow> outline_rec \<times> event list" where
  "extract_outline open_doc pdf_path =
     (case try_extract open_doc pdf_path of
        (Inr result, evs) \<Rightarrow> (result, evs)
      | (Inl err, evs) \<Rightarrow>
          (\<lparr> title = p_stem pdf_path, outline = [] \<rparr>, evs @ [Failed pdf_path err]))"






section \<open>Reference notions used in the statements\<close>

text \<open>The identity under which headings are deduplicated.\<close>

definition heading_key :: "heading \<Rightarrow> string \<times> string" where
  "heading_key h = (h_level h, h_text h)"

text \<open>
  The deduplication as the specification words it: of a heading sequence, keep the
  headings whose text has more than 3 characters and whose (level, text) pair does not
  occur earlier in the sequence, in their order.
\<close>

definition first_occurrences :: "heading list \<Rightarrow> heading list" where
  "first_occurrences hs =
     map (\<lambda>i. hs ! i)
       (filter (\<lambda>i. 3 < length (h_text (hs ! i)) \<and>
                    heading_key (hs ! i) \<notin> heading_key ` set (take i hs))
          [0..<length hs])"

text \<open>
  The first element of a list, in list order, whose number of occurrences in the list is
  maximal; and the first pair of a list whose first component is maximal.
\<close>

definition first_most_frequent :: "rat list \<Rightarrow> rat option" where
  "first_most_frequent xs = find (\<lambda>s. \<forall>t \<in> set xs. count_list xs t \<le> count_list xs s) xs"

definition first_largest :: "(rat \<times> string) list \<Rightarrow> (rat \<times> string) option" where
  "first_largest cand = find (\<lambda>c. \<forall>c' \<in> set cand. fst c' \<le> fst c) cand"

text \<open>
  The merged line of a group as the specification words it, for a group of one fragment
  and for a group of two fragments of which \<open>l\<close> is the one to the left: the texts joined
  by a single space and white-space normalised, the larger size, bold if either fragment
  is bold, page and position of the leftmost fragment, and the quantized key as line-y.
\<close>

definition single_line :: "rat \<Rightarrow> elem \<Rightarrow> elem" where
  "single_line key f =
     \<lparr> el_text = clean_text (el_text f), el_size = el_size f, el_flags = el_flags f,
       el_page = el_page f, relative_x = relative_x f, relative_y = relative_y f,
       line_y = key, el_x = None, has_bold = Some (is_bold (el_flags f)) \<rparr>"

definition joined_line :: "rat \<Rightarrow> elem \<Rightarrow> elem \<Rightarrow> elem" where
  "joined_line key l r =
     \<lparr> el_text = clean_text (el_text l @ '' '' @ el_text r),
       el_size = max (el_size l) (el_size r), el_flags = el_flags l,
       el_page = el_page l, relative_x = relative_x l, relative_y = relative_y l,
       line_y = key, el_x = None,
       has_bold = Some (is_bold (el_flags l) \<or> is_bold (el_flags r)) \<rparr>"

section \<open>Concrete documents\<close>

definition ex_span :: "string \<Rightarrow> rat \<Rightarrow> rat \<Rightarrow> rat \<Rightarrow> span" where
  "ex_span t sz x0 y0 =
     \<lparr> span_text = t, span_font = ''Helvetica'', span_size = sz, span_flags = 0,
       span_bbox = (x0, y0, x0 + 200, y0 + sz) \<rparr>"

text \<open>A page of 600 by 800 units with one text block; each line is given by its y and spans.\<close>

definition ex_page :: "(rat \<times> span list) list \<Rightarrow> pdf_page" where
  "ex_page ls =
     \<lparr> rect_width = 600, rect_height = 800,
       get_text = Inr [Some (map (\<lambda>(y0, ss). \<lparr> line_bbox = (0, y0, 600, y0 + 12), spans = ss \<rparr>) ls)] \<rparr>"

text \<open>Two pages, each with one line at y = 100.\<close>

definition ex_doc_same_y :: doc where
  "ex_doc_same_y =
     [ex_page [(100, [ex_span ''Introduction'' 12 50 100])],
      ex_page [(100, [ex_span ''Appendix'' 12 50 100])]]"

text \<open>A numbered heading in the middle of page 1 and one near the top of page 2.\<close>

definition ex_doc_two_pages :: doc where
  "ex_doc_two_pages =
     [ex_page [(400, [ex_span ''1. Introduction'' 12 50 400])],
      ex_page [(100, [ex_span ''2. Methods'' 12 50 100])]]"

text \<open>A document that opens but whose only page cannot be decoded.\<close>

definition ex_doc_damaged :: doc where
  "ex_doc_damaged =
     [\<lparr> rect_width = 600, rect_height = 800,
        get_text = Inl (DecoderError ''cannot load page'') \<rparr>]"

definition ex_path :: "string \<Rightarrow> path" where
  "ex_path stem =
     \<lparr> p_str = ''dataset/'' @ stem @ ''.pdf'', p_name = stem @ ''.pdf'', p_stem = stem \<rparr>"

definition ex_open :: "path \<Rightarrow> error + doc" where
  "ex_open p =
     (if p_stem p = ''report'' then Inr ex_doc_two_pages
      else if p_stem p = ''damaged'' then Inr ex_doc_damaged
      else Inl (DecoderError ''cannot open''))"



text \<open>A fragment of size 12 on page 1 of a 600 by 800 page.\<close>

definition ex_frag :: "string \<Rightarrow> rat \<Rightarrow> rat \<Rightarrow> elem" where
  "ex_frag t x0 y0 =
     \<lparr> el_text = t, el_size = 12, el_flags = 0, el_page = 1, relative_x = x0 / 600,
       relative_y = y0 / 800, line_y = y0, el_x = Some x0, has_bold = None \<rparr>"

text \<open>A merged line or candidate of a given size.\<close>

definition ex_line :: "string \<Rightarrow> rat \<Rightarrow> elem" where
  "ex_line t sz =
     \<lparr> el_text = t, el_size = sz, el_flags = 0, el_page = 1, relative_x = 1 / 12,
       relative_y = 1 / 2, line_y = 399, el_x = None, has_bold = Some False \<rparr>"

definition ex_lines :: "elem list" where
  "ex_lines =
     [ex_line ''Title'' 24, ex_line ''Section'' 18, ex_line ''body'' 12, ex_line ''body'' 12,
      ex_line ''body'' 12, ex_line ''note'' 10]"

definition ex_candidates :: "elem list" where
  "ex_candidates =
     [ex_line ''Title'' 24, ex_line ''Section'' 18, ex_line ''Subsection'' 14,
      ex_line ''1. Numbered'' 12]"

text \<open>The merged line of the single fragment \<open>ex_frag ''Hello'' 50 100\<close> at tolerance 3.\<close>

definition ex_merged :: elem where
  "ex_merged =
     \<lparr> el_text = ''Hello'', el_size = 12, el_flags = 0, el_page = 1, relative_x = 1 / 12,
       relative_y = 1 / 8, line_y = 99, el_x = None, has_bold = Some False \<rparr>"

text \<open>Sizes 10 and 12 occur twice each, 10 first; two title candidates of equal size.\<close>

definition ex_tie_lines :: "elem list" where
  "ex_tie_lines = [ex_line ''a'' 10, ex_line ''b'' 12, ex_line ''c'' 12, ex_line ''d'' 10]"

definition ex_title_page :: "elem list" where
  "ex_title_page =
     [ex_frag ''First long title'' 50 100, ex_frag ''Second long title'' 50 150]"

section \<open>Line Merger: what it does with pages and with the tolerance\<close>

text \<open>
  Claim C1 (page isolation of line merging): two fragments on different pages are never
  merged into one line. The clustering key of \<open>merge_by_line\<close> is the quantized line-y
  alone, and \<open>extract_outline\<close> merges the fragments of all pages at once: for the
  document \<open>ex_doc_same_y\<close>, whose two pages each have one line at y = 100, the Line
  Merger returns a single line on page 1 that holds the text of both pages.
\<close>

theorem page_isolation_violated:
  "(case extract_text_with_metadata ex_doc_same_y of
      Inl err \<Rightarrow> Inl err
    | Inr pages \<Rightarrow> merge_by_line (concat pages) 3) =
   Inr [\<lparr> el_text = ''Introduction Appendix'', el_size = 12, el_flags = 0, el_page = 1,
          relative_x = 1 / 12, relative_y = 1 / 8, line_y = 99, el_x = None,
          has_bold = Some False \<rparr>]"
  by code_simp

text \<open>
  Claim C3 (output ordering): the outline lists the headings in document order, page
  ascending and then position within the page. The merged lines are visited by ascending
  quantized line-y whatever their page: for \<open>ex_doc_two_pages\<close> the heading of page 2
  (y = 100) comes before the heading of page 1 (y = 400).
\<close>

theorem outline_order_ignores_pages:
  "fst (extract_outline ex_open (ex_path ''report'')) =
   \<lparr> title = ''Report'',
     outline = [\<lparr> h_level = ''H3'', h_text = ''2. Methods'', h_page = 2 \<rparr>,
                \<lparr> h_level = ''H3'', h_text = ''1. Introduction'', h_page = 1 \<rparr>] \<rparr>"
  by code_simp

text \<open>
  Claim C4 (merge tolerance), as stated: with tolerance 3, two fragments on the same page
  with line-y 100 and 101 are merged into one line. Rounding to the nearest multiple of 3
  sends 100 to 99 and 101 to 102, so the two fragments stay two lines.
\<close>

theorem merge_100_101_counterexample:
  "merge_by_line [ex_frag ''Hello'' 50 100, ex_frag ''World'' 120 101] 3 =
   Inr [\<lparr> el_text = ''Hello'', el_size = 12, el_flags = 0, el_page = 1, relative_x = 1 / 12,
          relative_y = 1 / 8, line_y = 99, el_x = None, has_bold = Some False \<rparr>,
        \<lparr> el_text = ''World'', el_size = 12, el_flags = 0, el_page = 1, relative_x = 1 / 5,
          relative_y = 101 / 800, line_y = 102, el_x = None, has_bold = Some False \<rparr>]"
  by code_simp

lemma is_space_blank: "is_space (CHR '' '')"
  by (simp add: is_space_def)

lemma strip_empty_iff: "strip s = [] \<longleftrightarrow> (\<forall>c \<in> set s. is_space c)"
proof
  assume "strip s = []"
  then have a: "\<forall>c \<in> set (dropWhile is_space s). is_space c"
    by (simp add: strip_def dropWhile_eq_Nil_conv)
  have "dropWhile is_space s = []"
  proof (rule ccontr)
    assume n: "dropWhile is_space s \<noteq> []"
    then have "\<not> is_space (hd (dropWhile is_space s))" by (rule hd_dropWhile)
    moreover have "hd (dropWhile is_space s) \<in> set (dropWhile is_space s)"
      using n by simp
    ultimately show False using a by blast
  qed
  then show "\<forall>c \<in> set s. is_space c" by (simp add: dropWhile_eq_Nil_conv)
next
  assume "\<forall>c \<in> set s. is_space c"
  then have "\<forall>c \<in> set (dropWhile is_space s). is_space c"
    using set_dropWhileD by fastforce
  then show "strip s = []" by (simp add: strip_def dropWhile_eq_Nil_conv)
qed

lemma sub_ws_all_space: "(\<forall>c \<in> set (sub_ws r s). is_space c) \<longleftrightarrow> (\<forall>c \<in> set s. is_space c)"
  by (induction s arbitrary: r) (auto simp: is_space_blank)

lemma clean_text_empty_iff: "clean_text s = [] \<longleftrightarrow> (\<forall>c \<in> set s. is_space c)"
  by (simp add: clean_text_def strip_empty_iff sub_ws_all_space)

lemma clean_text_join2:
  "clean_text s \<noteq> [] \<Longrightarrow> clean_text (join_sp [s, t]) \<noteq> [] \<and> clean_text (join_sp [t, s]) \<noteq> []"
  by (auto simp: clean_text_empty_iff)

lemma merge_group_single_line:
  assumes "el_x a = Some xa" and "clean_text (el_text a) \<noteq> []"
  shows "merge_group k [a] = Inr (Some (single_line k a))"
  using assms by (simp add: merge_group_def sort_by_x_def single_line_def)

lemma merge_group_joined_line:
  assumes "el_x a = Some xa" and "el_x b = Some xb"
    and "clean_text (el_text a) \<noteq> []"
  shows "merge_group k [a, b] =
         Inr (Some (if xa \<le> xb then joined_line k a b else joined_line k b a))"
  using assms clean_text_join2[of "el_text a" "el_text b"]
  by (simp add: merge_group_def sort_by_x_def joined_line_def max.commute disj_commute)

text \<open>
  Claim C4, amended: with tolerance 3, two fragments on the same page (each with visible
  text) are merged into one line exactly when their line-y values round to the same
  multiple of 3, that is when \<open>round(line_y / 3)\<close> agrees. The one line then has the two
  texts joined from left to right, the larger size, and page and position of the left
  fragment. Otherwise the result is two lines, one per fragment, by ascending key.
\<close>

theorem merge_tolerance_amended:
  assumes "el_x a = Some xa" and "el_x b = Some xb"
    and "clean_text (el_text a) \<noteq> []" and "clean_text (el_text b) \<noteq> []"
    and "el_page a = el_page b"
  shows "merge_by_line [a, b] 3 =
     (let ka = py_round (line_y a / 3); kb = py_round (line_y b / 3)
      in if ka = kb
         then Inr [if xa \<le> xb then joined_line (of_int ka * 3) a b
                   else joined_line (of_int ka * 3) b a]
         else if ka < kb
         then Inr [single_line (of_int ka * 3) a, single_line (of_int kb * 3) b]
         else Inr [single_line (of_int kb * 3) b, single_line (of_int ka * 3) a])"
proof (cases "py_round (line_y a / 3) = py_round (line_y b / 3)")
  case True
  have "merge_group (of_int (py_round (line_y b / 3)) * 3) [a, b] =
      Inr (Some (if xa \<le> xb then joined_line (of_int (py_round (line_y b / 3)) * 3) a b
                 else joined_line (of_int (py_round (line_y b / 3)) * 3) b a))"
    by (rule merge_group_joined_line[OF assms(1,2,3)])
  with True show ?thesis
    by (simp add: merge_by_line_def line_key_def Let_def)
next
  case False
  have m1: "merge_group (of_int (py_round (line_y a / 3)) * 3) [a] =
      Inr (Some (single_line (of_int (py_round (line_y a / 3)) * 3) a))"
    by (rule merge_group_single_line[OF assms(1,3)])
  have m2: "merge_group (of_int (py_round (line_y b / 3)) * 3) [b] =
      Inr (Some (single_line (of_int (py_round (line_y b / 3)) * 3) b))"
    by (rule merge_group_single_line[OF assms(2,4)])
  from False m1 m2 show ?thesis
    by (auto simp: merge_by_line_def line_key_def Let_def)
qed

theorem merge_tolerance_amended_witness:
  "merge_by_line [ex_frag ''Hello'' 50 101, ex_frag ''World'' 120 102] 3 =
     Inr [\<lparr> el_text = ''Hello World'', el_size = 12, el_flags = 0, el_page = 1,
            relative_x = 1 / 12, relative_y = 101 / 800, line_y = 102, el_x = None,
            has_bold = Some False \<rparr>] \<and>
   merge_by_line [ex_frag ''Hello'' 50 104, ex_frag ''World'' 20 101] 3 =
     Inr [\<lparr> el_text = ''World'', el_size = 12, el_flags = 0, el_page = 1,
            relative_x = 1 / 30, relative_y = 101 / 800, line_y = 102, el_x = None,
            has_bold = Some False \<rparr>,
          \<lparr> el_text = ''Hello'', el_size = 12, el_flags = 0, el_page = 1,
            relative_x = 1 / 12, relative_y = 13 / 100, line_y = 105, el_x = None,
            has_bold = Some False \<rparr>]"
proof -
  have x: "el_x (ex_frag ''Hello'' 50 101) = Some 50" "el_x (ex_frag ''World'' 120 102) = Some 120"
    "el_x (ex_frag ''Hello'' 50 104) = Some 50" "el_x (ex_frag ''World'' 20 101) = Some 20"
    by (simp_all add: ex_frag_def)
  have t: "clean_text (el_text (ex_frag ''Hello'' 50 101)) \<noteq> []"
    "clean_text (el_text (ex_frag ''World'' 120 102)) \<noteq> []"
    "clean_text (el_text (ex_frag ''Hello'' 50 104)) \<noteq> []"
    "clean_text (el_text (ex_frag ''World'' 20 101)) \<noteq> []"
    by code_simp+
  have p: "el_page (ex_frag ''Hello'' 50 101) = el_page (ex_frag ''World'' 120 102)"
    "el_page (ex_frag ''Hello'' 50 104) = el_page (ex_frag ''World'' 20 101)"
    by (simp_all add: ex_frag_def)
  have r1: "(let ka = py_round (line_y (ex_frag ''Hello'' 50 101) / 3);
                 kb = py_round (line_y (ex_frag ''World'' 120 102) / 3)
      in if ka = kb
         then Inr [if (50::rat) \<le> 120
                   then joined_line (of_int ka * 3) (ex_frag ''Hello'' 50 101) (ex_frag ''World'' 120 102)
                   else joined_line (of_int ka * 3) (ex_frag ''World'' 120 102) (ex_frag ''Hello'' 50 101)]
         else if ka < kb
         then Inr [single_line (of_int ka * 3) (ex_frag ''Hello'' 50 101),
                   single_line (of_int kb * 3) (ex_frag ''World'' 120 102)]
         else Inr [single_line (of_int kb * 3) (ex_frag ''World'' 120 102),
                   single_line (of_int ka * 3) (ex_frag ''Hello'' 50 101)]) =
     (Inr [\<lparr> el_text = ''Hello World'', el_size = 12, el_flags = 0, el_page = 1,
            relative_x = 1 / 12, relative_y = 101 / 800, line_y = 102, el_x = None,
            has_bold = Some False \<rparr>] :: error + elem list)"
    by code_simp
  have r2: "(let ka = py_round (line_y (ex_frag ''Hello'' 50 104) / 3);
                 kb = py_round (line_y (ex_frag ''World'' 20 101) / 3)
      in if ka = kb
         then Inr [if (50::rat) \<le> 20
                   then joined_line (of_int ka * 3) (ex_frag ''Hello'' 50 104) (ex_frag ''World'' 20 101)
                   else joined_line (of_int ka * 3) (ex_frag ''World'' 20 101) (ex_frag ''Hello'' 50 104)]
         else if ka < kb
         then Inr [single_line (of_int ka * 3) (ex_frag ''Hello'' 50 104),
                   single_line (of_int kb * 3) (ex_frag ''World'' 20 101)]
         else Inr [single_line (of_int kb * 3) (ex_frag ''World'' 20 101),
                   single_line (of_int ka * 3) (ex_frag ''Hello'' 50 104)]) =
     (Inr [\<lparr> el_text = ''World'', el_size = 12, el_flags = 0, el_page = 1,
            relative_x = 1 / 30, relative_y = 101 / 800, line_y = 102, el_x = None,
            has_bold = Some False \<rparr>,
          \<lparr> el_text = ''Hello'', el_size = 12, el_flags = 0, el_page = 1,
            relative_x = 1 / 12, relative_y = 13 / 100, line_y = 105, el_x = None,
            has_bold = Some False \<rparr>] :: error + elem list)"
    by code_simp
  from merge_tolerance_amended[OF x(1) x(2) t(1) t(2) p(1)]
    merge_tolerance_amended[OF x(3) x(4) t(3) t(4) p(2)]
  show ?thesis unfolding r1 r2 by simp
qed

lemma py_round_of_int: "py_round (of_int k) = k"
  by (simp add: py_round_def)

lemma line_key_fixpoint: "tol \<noteq> 0 \<Longrightarrow> line_key (of_int k * tol) tol = Inr (of_int k * tol)"
  by (simp add: line_key_def py_round_of_int)

lemma append_to_keys:
  "map fst (append_to k e acc) = (if k \<in> fst ` set acc then map fst acc else map fst acc @ [k])"
  by (induction k e acc rule: append_to.induct) (auto simp: image_iff)

lemma append_to_groups:
  "(\<forall>(k', g) \<in> set acc. g \<noteq> [] \<and> set g \<subseteq> S) \<Longrightarrow> e \<in> S \<Longrightarrow>
   (\<forall>(k', g) \<in> set (append_to k e acc). g \<noteq> [] \<and> set g \<subseteq> S)"
  by (induction k e acc rule: append_to.induct) (auto split: if_splits)

lemma append_to_nonempty: "append_to k e acc \<noteq> []"
  by (cases acc) (auto split: if_splits)

lemma group_lines_distinct:
  "group_lines es tol acc = Inr lines \<Longrightarrow> distinct (map fst acc) \<Longrightarrow> distinct (map fst lines)"
proof (induction es arbitrary: acc)
  case Nil
  then show ?case by simp
next
  case (Cons e es)
  from Cons.prems(1) obtain key where k: "line_key (line_y e) tol = Inr key"
    and g: "group_lines es tol (append_to key e acc) = Inr lines"
    by (auto split: sum.splits)
  have "distinct (map fst (append_to key e acc))"
    using Cons.prems(2) by (simp add: append_to_keys)
  with g show ?case by (rule Cons.IH)
qed

lemma group_lines_key_form:
  "group_lines es tol acc = Inr lines \<Longrightarrow>
   \<forall>k \<in> fst ` set acc. tol \<noteq> 0 \<and> (\<exists>n. k = of_int n * tol) \<Longrightarrow>
   \<forall>k \<in> fst ` set lines. tol \<noteq> 0 \<and> (\<exists>n. k = of_int n * tol)"
proof (induction es arbitrary: acc)
  case Nil
  then show ?case by simp
next
  case (Cons e es)
  from Cons.prems(1) obtain key where k: "line_key (line_y e) tol = Inr key"
    and g: "group_lines es tol (append_to key e acc) = Inr lines"
    by (auto split: sum.splits)
  from k have "tol \<noteq> 0 \<and> (\<exists>n. key = of_int n * tol)"
    by (auto simp: line_key_def split: if_splits)
  then have "\<forall>k \<in> set (map fst (append_to key e acc)). tol \<noteq> 0 \<and> (\<exists>n. k = of_int n * tol)"
    using Cons.prems(2) unfolding append_to_keys by auto
  then have "\<forall>k \<in> fst ` set (append_to key e acc). tol \<noteq> 0 \<and> (\<exists>n. k = of_int n * tol)"
    by simp
  with g show ?case by (rule Cons.IH)
qed

lemma group_lines_groups:
  "group_lines es tol acc = Inr lines \<Longrightarrow>
   \<forall>(k, g) \<in> set acc. g \<noteq> [] \<and> set g \<subseteq> S \<Longrightarrow> set es \<subseteq> S \<Longrightarrow>
   \<forall>(k, g) \<in> set lines. g \<noteq> [] \<and> set g \<subseteq> S"
proof (induction es arbitrary: acc)
  case Nil
  then show ?case by simp
next
  case (Cons e es)
  from Cons.prems(1) obtain key where
    g: "group_lines es tol (append_to key e acc) = Inr lines"
    by (auto split: sum.splits)
  have "\<forall>(k, g) \<in> set (append_to key e acc). g \<noteq> [] \<and> set g \<subseteq> S"
    using Cons.prems(2,3) by (intro append_to_groups) auto
  with g show ?case using Cons.prems(3) by (intro Cons.IH) auto
qed

lemma group_lines_nonempty:
  "group_lines es tol acc = Inr lines \<Longrightarrow> es \<noteq> [] \<or> acc \<noteq> [] \<Longrightarrow> lines \<noteq> []"
proof (induction es arbitrary: acc)
  case Nil
  then show ?case by simp
next
  case (Cons e es)
  from Cons.prems(1) obtain key where
    g: "group_lines es tol (append_to key e acc) = Inr lines"
    by (auto split: sum.splits)
  then show ?case using append_to_nonempty by (intro Cons.IH) auto
qed

lemma group_lines_total:
  "tol \<noteq> 0 \<Longrightarrow> \<exists>lines. group_lines es tol acc = Inr lines"
  by (induction es arbitrary: acc) (simp_all add: line_key_def)

lemma merge_group_Some:
  "merge_group key spans0 = Inr (Some m) \<Longrightarrow> line_y m = key \<and> el_x m = None"
  by (auto simp: merge_group_def Let_def split: sum.splits if_splits list.splits)

lemma merge_groups_lines:
  "merge_groups gs = Inr ms \<Longrightarrow> \<forall>m \<in> set ms. el_x m = None \<and> line_y m \<in> fst ` set gs"
proof (induction gs arbitrary: ms rule: merge_groups.induct)
  case 1
  then show ?case by simp
next
  case (2 key spans rest)
  show ?case
  proof (cases "merge_group key spans")
    case (Inl err)
    with "2.prems" show ?thesis by simp
  next
    case (Inr r)
    show ?thesis
    proof (cases r)
      case None
      with Inr "2.prems" "2.IH"(1)[of r ms] show ?thesis by auto
    next
      case (Some m)
      with Inr "2.prems" obtain ms' where ms': "merge_groups rest = Inr ms'" "ms = m # ms'"
        by (auto split: sum.splits)
      with "2.IH"(2)[OF Inr Some ms'(1)] merge_group_Some[of key spans m] Inr Some
      show ?thesis by auto
    qed
  qed
qed

lemma merge_groups_sorted:
  "merge_groups gs = Inr ms \<Longrightarrow> sorted_wrt (<) (map fst gs) \<Longrightarrow> sorted_wrt (<) (map line_y ms)"
proof (induction gs arbitrary: ms rule: merge_groups.induct)
  case 1
  then show ?case by simp
next
  case (2 key spans rest)
  show ?case
  proof (cases "merge_group key spans")
    case (Inl err)
    with "2.prems" show ?thesis by simp
  next
    case (Inr r)
    show ?thesis
    proof (cases r)
      case None
      with Inr "2.prems" "2.IH"(1)[of r ms] show ?thesis by auto
    next
      case (Some m)
      with Inr "2.prems" obtain ms' where ms': "merge_groups rest = Inr ms'" "ms = m # ms'"
        by (auto split: sum.splits)
      have "sorted_wrt (<) (map line_y ms')"
        using "2.IH"(2)[OF Inr Some ms'(1)] "2.prems"(2) by simp
      moreover have "\<forall>m' \<in> set ms'. line_y m' \<in> fst ` set rest"
        using merge_groups_lines[OF ms'(1)] by blast
      moreover have "line_y m = key"
        using merge_group_Some[of key spans m] Inr Some by simp
      ultimately show ?thesis using ms'(2) "2.prems"(2) by fastforce
    qed
  qed
qed

lemma merge_groups_no_x:
  "gs \<noteq> [] \<Longrightarrow> \<forall>(k, g) \<in> set gs. g \<noteq> [] \<and> (\<forall>e \<in> set g. el_x e = None) \<Longrightarrow>
   merge_groups gs = Inl (KeyError ''x'')"
proof (cases gs)
  case Nil
  assume "gs \<noteq> []"
  with Nil show ?thesis by simp
next
  case (Cons a rest)
  assume h: "\<forall>(k, g) \<in> set gs. g \<noteq> [] \<and> (\<forall>e \<in> set g. el_x e = None)"
  obtain key spans where a: "a = (key, spans)" by (cases a)
  with h Cons obtain e es where s: "spans = e # es" "el_x e = None"
    by (cases spans) auto
  then have "merge_group key spans = Inl (KeyError ''x'')"
    by (simp add: merge_group_def sort_by_x_def)
  with Cons a show ?thesis by simp
qed

lemma sorted_groups_strict:
  assumes "distinct (map fst lines)"
  shows "sorted_wrt (<) (map fst (sort_key fst lines))"
proof -
  have "distinct (map fst (sort_key fst lines))"
    using assms by (simp add: distinct_map)
  moreover have "sorted (map fst (sort_key fst lines))" by (rule sorted_sort_key)
  ultimately show ?thesis by (simp add: strict_sorted_iff)
qed

text \<open>
  Claim C8 (line-merging idempotence), as stated: applying the Line Merger to its own
  output at the same tolerance yields the same line set. A merged line has no \<open>"x"\<close>
  key, which the merger reads when it sorts a group: merging the output for one fragment
  raises \<open>KeyError\<close>.
\<close>

theorem remerge_counterexample:
  "merge_by_line [ex_frag ''Hello'' 50 100] 3 = Inr [ex_merged] \<and>
   merge_by_line [ex_merged] 3 = Inl (KeyError ''x'')"
  by code_simp

text \<open>
  Claim C8, amended: for every tolerance, the lines returned by the Line Merger have
  strictly ascending quantized keys, each key is a fixed point of the quantization at
  the same tolerance (re-clustering would put every merged line alone in a group with
  the same key), and no merged line has an \<open>"x"\<close> key, so that the Line Merger itself
  returns the empty set on an empty output and fails with \<open>KeyError\<close> on any other.
\<close>

theorem remerge_amended:
  assumes "merge_by_line elements tol = Inr merged"
  shows "sorted_wrt (<) (map line_y merged) \<and>
         (\<forall>l \<in> set merged. line_key (line_y l) tol = Inr (line_y l) \<and> el_x l = None) \<and>
         merge_by_line merged tol = (if merged = [] then Inr [] else Inl (KeyError ''x''))"
proof -
  from assms obtain lines where g: "group_lines elements tol [] = Inr lines"
    and m: "merge_groups (sort_key fst lines) = Inr merged"
    by (auto simp: merge_by_line_def split: sum.splits)
  have d: "distinct (map fst lines)"
    using group_lines_distinct[OF g] by simp
  have s: "sorted_wrt (<) (map line_y merged)"
    using merge_groups_sorted[OF m sorted_groups_strict[OF d]] .
  have kf: "\<forall>k \<in> fst ` set lines. tol \<noteq> 0 \<and> (\<exists>n. k = of_int n * tol)"
    using group_lines_key_form[OF g] by simp
  have ml: "\<forall>l \<in> set merged. el_x l = None \<and> line_y l \<in> fst ` set lines"
    using merge_groups_lines[OF m] by simp
  have fx: "\<forall>l \<in> set merged. line_key (line_y l) tol = Inr (line_y l) \<and> el_x l = None"
  proof
    fix l assume "l \<in> set merged"
    with ml have x: "el_x l = None" and "line_y l \<in> fst ` set lines" by auto
    with kf obtain n where "tol \<noteq> 0" "line_y l = of_int n * tol" by blast
    then show "line_key (line_y l) tol = Inr (line_y l) \<and> el_x l = None"
      using x by (simp add: line_key_fixpoint)
  qed
  have r: "merge_by_line merged tol = (if merged = [] then Inr [] else Inl (KeyError ''x''))"
  proof (cases "merged = []")
    case True
    then show ?thesis by (simp add: merge_by_line_def)
  next
    case False
    then obtain l where "l \<in> set merged" by (cases merged) auto
    with ml kf have t: "tol \<noteq> 0" by blast
    then obtain lines' where g': "group_lines merged tol [] = Inr lines'"
      using group_lines_total by blast
    have "lines' \<noteq> []"
      using group_lines_nonempty[OF g'] False by simp
    then have "length (sort_key fst lines') \<noteq> 0"
      by simp
    then have ne: "sort_key fst lines' \<noteq> []"
      by (simp del: length_sort)
    have "\<forall>(k, g) \<in> set lines'. g \<noteq> [] \<and> set g \<subseteq> set merged"
      using group_lines_groups[OF g', of "set merged"] by simp
    then have "\<forall>(k, g) \<in> set (sort_key fst lines'). g \<noteq> [] \<and> (\<forall>e \<in> set g. el_x e = None)"
      using ml by fastforce
    then have "merge_groups (sort_key fst lines') = Inl (KeyError ''x'')"
      using ne by (intro merge_groups_no_x)
    with False g' show ?thesis by (simp add: merge_by_line_def)
  qed
  from s fx r show ?thesis by blast
qed

theorem remerge_amended_witness:
  "sorted_wrt (<) (map line_y [ex_merged]) \<and>
   line_key (line_y ex_merged) 3 = Inr (line_y ex_merged) \<and> el_x ex_merged = None \<and>
   merge_by_line [ex_merged] 3 = Inl (KeyError ''x'')"
proof -
  have e: "merge_by_line [ex_frag ''Hello'' 50 100] 3 = Inr [ex_merged]"
    by code_simp
  from remerge_amended[OF e] show ?thesis by simp
qed

section \<open>Font Statistics Analyzer\<close>

lemma counter_add_nonempty: "counter_add s cs \<noteq> []"
  by (cases cs) (auto split: if_splits)

lemma fold_counter_add_nonempty: "acc \<noteq> [] \<Longrightarrow> fold counter_add sizes acc \<noteq> []"
  by (induction sizes arbitrary: acc) (simp_all add: counter_add_nonempty)

lemma Counter_nonempty: "sizes \<noteq> [] \<Longrightarrow> Counter sizes \<noteq> []"
  by (cases sizes) (simp_all add: Counter_def fold_counter_add_nonempty counter_add_nonempty)

lemma most_common_1_nonempty: "counts \<noteq> [] \<Longrightarrow> most_common_1 counts \<noteq> []"
  by (cases counts) (simp_all add: most_common_1_def)

lemma sorted_set_desc_strict: "sorted_wrt (>) (sorted_set_desc xs)"
proof -
  have "sorted_wrt (<) (sort (remdups xs))"
    by (simp add: strict_sorted_iff)
  then show ?thesis
    by (simp add: sorted_set_desc_def sorted_wrt_rev)
qed

lemma set_sorted_set_desc: "set (sorted_set_desc xs) = set xs"
  by (simp add: sorted_set_desc_def)

lemma distinct_sorted_set_desc: "distinct (sorted_set_desc xs)"
  by (simp add: sorted_set_desc_def)

lemma analyze_significant:
  assumes "analyze_font_distribution lines = Inr (sig, base)"
  shows "length sig \<le> 3 \<and> sorted_wrt (>) sig \<and> distinct sig \<and> (\<forall>s \<in> set sig. base < s)"
proof (cases "map el_size (filter (\<lambda>l. 0 < el_size l) lines) = []")
  case True
  with assms have "sig = []" by (simp add: analyze_font_distribution_def)
  then show ?thesis by simp
next
  case False
  with assms obtain n rest xs where
    sig: "sig = take 3 (sorted_set_desc xs)" and xs: "\<forall>s \<in> set xs. base < s"
    by (auto simp: analyze_font_distribution_def Let_def split: list.splits prod.splits)
  have "sorted_wrt (>) sig" unfolding sig
    using sorted_set_desc_strict sorted_wrt_take by blast
  moreover have "distinct sig" unfolding sig
    by (simp add: distinct_sorted_set_desc)
  moreover have "set sig \<subseteq> set xs" unfolding sig
    using set_take_subset[of 3 "sorted_set_desc xs"] by (simp add: set_sorted_set_desc)
  ultimately show ?thesis using xs sig by auto
qed

lemma analyze_total: "\<exists>sig base. analyze_font_distribution lines = Inr (sig, base)"
proof (cases "map el_size (filter (\<lambda>l. 0 < el_size l) lines) = []")
  case True
  then show ?thesis by (simp add: analyze_font_distribution_def)
next
  case False
  then have "most_common_1 (Counter (map el_size (filter (\<lambda>l. 0 < el_size l) lines))) \<noteq> []"
    by (intro most_common_1_nonempty Counter_nonempty)
  with False show ?thesis
    by (auto simp: analyze_font_distribution_def Let_def split: list.splits prod.splits)
qed

text \<open>
  Claim C5 (significant-size invariant): for every list of merged lines the analyzer
  returns, without raising, a significant-size list of length at most 3 that is strictly
  descending, has no duplicates, and whose elements are all strictly greater than the
  returned base size.
\<close>

theorem significant_sizes_invariant:
  "\<exists>sig base. analyze_font_distribution lines = Inr (sig, base) \<and>
     length sig \<le> 3 \<and> sorted_wrt (>) sig \<and> distinct sig \<and> (\<forall>s \<in> set sig. base < s)"
  using analyze_total[of lines] analyze_significant by blast

theorem significant_sizes_invariant_witness:
  "analyze_font_distribution ex_lines = Inr ([24, 18], 12) \<and>
   length [24, 18 :: rat] \<le> 3 \<and> sorted_wrt (>) [24, 18 :: rat] \<and> distinct [24, 18 :: rat] \<and>
   (12 :: rat) < 24 \<and> (12 :: rat) < 18"
proof -
  have e: "analyze_font_distribution ex_lines = Inr ([24, 18], 12)"
    by code_simp
  from significant_sizes_invariant[of ex_lines] show ?thesis
    unfolding e by simp
qed

section \<open>Level Assigner\<close>

lemma fold_level_other:
  "k \<notin> set xs \<Longrightarrow> fold level_entry (enumerate n xs) m k = m k"
  by (induction xs arbitrary: n m) auto

lemma fold_level_nth:
  "distinct xs \<Longrightarrow> i < length xs \<Longrightarrow>
   fold level_entry (enumerate n xs) m (xs ! i) = Some (''H'' @ str_nat (n + i + 1))"
proof (induction xs arbitrary: n m i)
  case Nil
  then show ?case by simp
next
  case (Cons x xs)
  show ?case
  proof (cases i)
    case 0
    with Cons.prems show ?thesis by (simp add: fold_level_other)
  next
    case (Suc j)
    with Cons.prems have "fold level_entry (enumerate (Suc n) xs) (level_entry (n, x) m) (xs ! j)
        = Some (''H'' @ str_nat (Suc n + j + 1))"
      by (intro Cons.IH) auto
    with Suc show ?thesis by simp
  qed
qed

lemma level_map_nth:
  assumes "distinct sig" and "i < length sig"
  shows "level_map sig (sig ! i) = Some (''H'' @ str_nat (i + 1))"
  using fold_level_nth[OF assms, of 0 Map.empty] by (simp add: level_map_def)

lemma level_map_other: "s \<notin> set sig \<Longrightarrow> level_map sig s = None"
  unfolding level_map_def by (simp add: fold_level_other)

lemma str_nat_1: "str_nat (Suc 0) = ''1''" by (simp add: str_nat.simps)
lemma str_nat_2: "str_nat 2 = ''2''" by (simp add: str_nat.simps[of 2])
lemma str_nat_3: "str_nat 3 = ''3''" by (simp add: str_nat.simps[of 3])

lemma strict_desc_distinct: "sorted_wrt (>) (sig :: rat list) \<Longrightarrow> distinct sig"
proof -
  assume "sorted_wrt (>) sig"
  then have "sorted_wrt (<) (rev sig)" by (simp add: sorted_wrt_rev)
  then have "distinct (rev sig)" using strict_sorted_iff by blast
  then show ?thesis by simp
qed

text \<open>
  Claim C6 (level assignment mapping): for every candidate and every significant-size list
  (strictly descending, so that its first element is the largest size, its second the
  second-largest and its third the third-largest), a candidate of the largest significant
  size gets level "H1", of the second-largest "H2", of the third-largest "H3", and a
  candidate whose size is not a significant size gets the default "H3".
\<close>

theorem level_assignment_mapping:
  assumes "sorted_wrt (>) sig" and "i < length candidates"
  shows "(0 < length sig \<and> el_size (candidates ! i) = sig ! 0 \<longrightarrow>
            h_level (assign_heading_levels candidates sig ! i) = ''H1'') \<and>
         (1 < length sig \<and> el_size (candidates ! i) = sig ! 1 \<longrightarrow>
            h_level (assign_heading_levels candidates sig ! i) = ''H2'') \<and>
         (2 < length sig \<and> el_size (candidates ! i) = sig ! 2 \<longrightarrow>
            h_level (assign_heading_levels candidates sig ! i) = ''H3'') \<and>
         (el_size (candidates ! i) \<notin> set sig \<longrightarrow>
            h_level (assign_heading_levels candidates sig ! i) = ''H3'')"
proof -
  have d: "distinct sig"
    using assms(1) by (rule strict_desc_distinct)
  have l: "h_level (assign_heading_levels candidates sig ! i) =
       (case level_map sig (el_size (candidates ! i)) of None \<Rightarrow> ''H3'' | Some l \<Rightarrow> l)"
    using assms(2) by (simp add: assign_heading_levels_def)
  have h1: "0 < length sig \<Longrightarrow> level_map sig (sig ! 0) = Some ''H1''"
    using level_map_nth[OF d, of 0] by (simp add: str_nat_1)
  have h2: "1 < length sig \<Longrightarrow> level_map sig (sig ! 1) = Some ''H2''"
    using level_map_nth[OF d, of 1] str_nat_2 by (simp add: numeral_2_eq_2)
  have h3: "2 < length sig \<Longrightarrow> level_map sig (sig ! 2) = Some ''H3''"
    using level_map_nth[OF d, of 2] str_nat_3 by (simp add: numeral_3_eq_3)
  show ?thesis
    unfolding l using h1 h2 h3 by (simp add: level_map_other)
qed

theorem level_assignment_mapping_witness:
  "sorted_wrt (>) [24, 18, 14 :: rat] \<and>
   h_level (assign_heading_levels ex_candidates [24, 18, 14] ! 0) = ''H1'' \<and>
   h_level (assign_heading_levels ex_candidates [24, 18, 14] ! 1) = ''H2'' \<and>
   h_level (assign_heading_levels ex_candidates [24, 18, 14] ! 2) = ''H3'' \<and>
   h_level (assign_heading_levels ex_candidates [24, 18, 14] ! 3) = ''H3''"
proof -
  have s: "sorted_wrt (>) [24, 18, 14 :: rat]" by simp
  have l: "0 < length ex_candidates" "1 < length ex_candidates" "2 < length ex_candidates"
    "3 < length ex_candidates"
    by (simp_all add: ex_candidates_def)
  show ?thesis
    using s level_assignment_mapping[OF s l(1)] level_assignment_mapping[OF s l(2)]
      level_assignment_mapping[OF s l(3)] level_assignment_mapping[OF s l(4)]
    by (simp add: ex_candidates_def ex_line_def)
qed

section \<open>Deduplication\<close>

lemma unique_headings_char:
  "unique_headings hs seen =
     map (\<lambda>i. hs ! i)
       (filter (\<lambda>i. 3 < length (h_text (hs ! i)) \<and> heading_key (hs ! i) \<notin> seen \<and>
                    heading_key (hs ! i) \<notin> heading_key ` set (take i hs))
          [0..<length hs])"
proof (induction hs arbitrary: seen)
  case Nil
  then show ?case by simp
next
  case (Cons h t)
  have upt: "[0..<length (h # t)] = 0 # map Suc [0..<length t]"
    by (simp add: upt_conv_Cons map_Suc_upt del: upt_Suc)
  show ?case
  proof (cases "heading_key h \<notin> seen \<and> 3 < length (h_text h)")
    case True
    then show ?thesis
      unfolding upt
      by (auto simp: Cons.IH filter_map o_def Let_def heading_key_def
            intro!: arg_cong[where f = "map ((!) t)"] filter_cong)
  next
    case False
    have "unique_headings (h # t) seen = unique_headings t seen"
      using False by (auto simp: heading_key_def Let_def)
    also have "\<dots> = map (\<lambda>i. t ! i)
       (filter (\<lambda>i. 3 < length (h_text (t ! i)) \<and> heading_key (t ! i) \<notin> seen \<and>
                    heading_key (t ! i) \<notin> heading_key ` set (take i t)) [0..<length t])"
      by (rule Cons.IH)
    also have "\<dots> = map (\<lambda>i. (h # t) ! i)
       (filter (\<lambda>i. 3 < length (h_text ((h # t) ! i)) \<and> heading_key ((h # t) ! i) \<notin> seen \<and>
                    heading_key ((h # t) ! i) \<notin> heading_key ` set (take i (h # t)))
          [0..<length (h # t)])"
      unfolding upt using False
      by (auto simp: filter_map o_def heading_key_def
            intro!: arg_cong[where f = "map ((!) t)"] filter_cong)
    finally show ?thesis .
  qed
qed

lemma unique_headings_props:
  "distinct (map heading_key (unique_headings hs seen)) \<and>
   (\<forall>h \<in> set (unique_headings hs seen). 3 < length (h_text h) \<and> heading_key h \<notin> seen)"
proof (induction hs arbitrary: seen)
  case Nil
  then show ?case by simp
next
  case (Cons h t)
  show ?case
    using Cons.IH[of seen] Cons.IH[of "insert (h_level h, h_text h) seen"]
    by (auto simp: Let_def heading_key_def)
qed

lemma unique_headings_fixpoint:
  "distinct (map heading_key hs) \<Longrightarrow>
   \<forall>h \<in> set hs. 3 < length (h_text h) \<and> heading_key h \<notin> seen \<Longrightarrow>
   unique_headings hs seen = hs"
proof (induction hs arbitrary: seen)
  case Nil
  then show ?case by simp
next
  case (Cons h t)
  have "unique_headings t (insert (heading_key h) seen) = t"
    using Cons.prems by (intro Cons.IH) (auto simp: image_iff)
  with Cons.prems show ?case by (simp add: heading_key_def Let_def)
qed

text \<open>
  Claim C7 (deduplication contract): the deduplication loop outputs exactly the first
  occurrence of each distinct (level, text) pair whose text has more than 3 characters,
  in the input order, and applying it to its own output gives the same sequence.
\<close>

theorem deduplication_contract:
  "unique_headings hs {} = first_occurrences hs \<and>
   unique_headings (unique_headings hs {}) {} = unique_headings hs {}"
proof
  show "unique_headings hs {} = first_occurrences hs"
    by (simp add: unique_headings_char first_occurrences_def)
  show "unique_headings (unique_headings hs {}) {} = unique_headings hs {}"
    using unique_headings_props[of hs "{}"] by (intro unique_headings_fixpoint) auto
qed

section \<open>Decoder handle\<close>

text \<open>
  Claim C9 (decoder-resource release): the handle opened for a document is released after
  the extraction on the success path and on every failure path. \<open>doc.close()\<close> follows
  the extraction inside the \<open>try\<close> block and nothing closes the handle in the exception
  handler: for a document whose page cannot be decoded the handle is opened, the failure
  is reported, and no \<open>Closed\<close> event happens.
\<close>

theorem handle_left_open_on_failure:
  "snd (extract_outline ex_open (ex_path ''damaged'')) =
   [Opened (ex_path ''damaged''),
    Failed (ex_path ''damaged'') (DecoderError ''cannot load page'')]"
  by code_simp

section \<open>Failure isolation in the batch\<close>




















section \<open>Tie-breaks\<close>

lemma counter_add_map:
  "distinct ks \<Longrightarrow>
   counter_add x (map (\<lambda>s. (s, c s)) ks) =
     (if x \<in> set ks then map (\<lambda>s. (s, if s = x then c s + 1 else c s)) ks
      else map (\<lambda>s. (s, c s)) ks @ [(x, 1)])"
  by (induction ks) auto

lemma Counter_snoc: "Counter (xs @ [x]) = counter_add x (Counter xs)"
  by (simp add: Counter_def)

lemma Counter_char:
  "Counter xs = map (\<lambda>s. (s, count_list xs s)) (rev (remdups (rev xs)))"
proof (induction xs rule: rev_induct)
  case Nil
  then show ?case by (simp add: Counter_def)
next
  case (snoc x xs)
  let ?F = "rev (remdups (rev xs))"
  have d: "distinct ?F" by simp
  have F: "set ?F = set xs" by simp
  show ?case
  proof (cases "x \<in> set xs")
    case True
    then show ?thesis
      unfolding Counter_snoc snoc.IH counter_add_map[OF d] by auto
  next
    case False
    then have "map (\<lambda>s. (s, count_list (xs @ [x]) s)) ?F = map (\<lambda>s. (s, count_list xs s)) ?F"
      by (intro map_cong) auto
    with False show ?thesis
      unfolding Counter_snoc snoc.IH counter_add_map[OF d] by (simp add: count_list_0_iff)
  qed
qed

lemma find_append:
  "find Q (xs @ ys) = (case find Q xs of None \<Rightarrow> find Q ys | Some x \<Rightarrow> Some x)"
  by (induction xs) auto

lemma find_hit: "Q b \<Longrightarrow> find Q (b # xs) = Some b"
  by simp

lemma find_miss: "\<not> Q b \<Longrightarrow> find Q (b # xs) = find Q xs"
  by simp

lemma find_first_seen: "find Q (rev (remdups (rev xs))) = find Q xs"
proof (induction xs rule: rev_induct)
  case Nil
  then show ?case by simp
next
  case (snoc x xs)
  show ?case
  proof (cases "x \<in> set xs")
    case True
    then have "find Q (xs @ [x]) = find Q xs"
      by (auto simp: find_append find_None_iff find_None_iff2 split: option.splits)
    with True snoc.IH show ?thesis by simp
  next
    case False
    with snoc.IH show ?thesis by (simp add: find_append)
  qed
qed

lemma max_count_find:
  "find (\<lambda>s. \<forall>t \<in> set (b # ks). c t \<le> c s) (b # ks) =
   Some (fst (max_count (b, c b) (map (\<lambda>s. (s, c s)) ks)))"
proof (induction ks arbitrary: b)
  case Nil
  then show ?case by simp
next
  case (Cons k ks)
  show ?case
  proof (cases "c b < c k")
    case True
    have nb: "\<not> (\<forall>t \<in> set (b # k # ks). c t \<le> c b)"
      using True by auto
    have "find (\<lambda>s. \<forall>t \<in> set (b # k # ks). c t \<le> c s) (b # k # ks) =
          find (\<lambda>s. \<forall>t \<in> set (b # k # ks). c t \<le> c s) (k # ks)"
      using nb by (rule find_miss)
    also have "\<dots> = find (\<lambda>s. \<forall>t \<in> set (k # ks). c t \<le> c s) (k # ks)"
      using True by (intro find_cong) auto
    also have "\<dots> = Some (fst (max_count (k, c k) (map (\<lambda>s. (s, c s)) ks)))"
      by (rule Cons.IH)
    also have "max_count (k, c k) (map (\<lambda>s. (s, c s)) ks) =
        max_count (b, c b) (map (\<lambda>s. (s, c s)) (k # ks))"
      using True by simp
    finally show ?thesis .
  next
    case False
    show ?thesis
    proof (cases "\<forall>t \<in> set (b # ks). c t \<le> c b")
      case True
      then have "\<forall>t \<in> set (b # k # ks). c t \<le> c b"
        using False by auto
      then have "find (\<lambda>s. \<forall>t \<in> set (b # k # ks). c t \<le> c s) (b # k # ks) = Some b"
        by (rule find_hit)
      moreover have "find (\<lambda>s. \<forall>t \<in> set (b # ks). c t \<le> c s) (b # ks) = Some b"
        using True by (rule find_hit)
      moreover have "max_count (b, c b) (map (\<lambda>s. (s, c s)) (k # ks)) =
          max_count (b, c b) (map (\<lambda>s. (s, c s)) ks)"
        using False by simp
      ultimately show ?thesis using Cons.IH[of b] by (simp only:)
    next
      case nb: False
      then obtain t where t: "t \<in> set ks" "c b < c t" by auto
      have nb': "\<not> (\<forall>t \<in> set (b # k # ks). c t \<le> c b)"
        using t by (auto simp: not_le)
      have "c k \<le> c b" using False by (simp add: not_less)
      then have "c k < c t" using t(2) by (rule le_less_trans)
      then have "\<not> c t \<le> c k" by (simp add: not_le)
      then have nk: "\<not> (\<forall>t \<in> set (b # k # ks). c t \<le> c k)"
        using t(1) by (meson list.set_intros(2))
      have "find (\<lambda>s. \<forall>t \<in> set (b # k # ks). c t \<le> c s) (b # k # ks) =
          find (\<lambda>s. \<forall>t \<in> set (b # k # ks). c t \<le> c s) (k # ks)"
        using nb' by (rule find_miss)
      also have "\<dots> = find (\<lambda>s. \<forall>t \<in> set (b # k # ks). c t \<le> c s) ks"
        using nk by (rule find_miss)
      also have "\<dots> = find (\<lambda>s. \<forall>t \<in> set (b # ks). c t \<le> c s) ks"
        using False by (intro find_cong) auto
      also have "\<dots> = find (\<lambda>s. \<forall>t \<in> set (b # ks). c t \<le> c s) (b # ks)"
        using nb by (rule find_miss[symmetric])
      also have "\<dots> = Some (fst (max_count (b, c b) (map (\<lambda>s. (s, c s)) ks)))"
        by (rule Cons.IH)
      also have "max_count (b, c b) (map (\<lambda>s. (s, c s)) ks) =
          max_count (b, c b) (map (\<lambda>s. (s, c s)) (k # ks))"
        using False by simp
      finally show ?thesis .
    qed
  qed
qed

lemma base_size_first_most_frequent:
  assumes "analyze_font_distribution lines = Inr (sig, base)"
    and "map el_size (filter (\<lambda>l. 0 < el_size l) lines) \<noteq> []"
  shows "find (\<lambda>s. \<forall>t \<in> set (map el_size (filter (\<lambda>l. 0 < el_size l) lines)).
                  count_list (map el_size (filter (\<lambda>l. 0 < el_size l) lines)) t
                    \<le> count_list (map el_size (filter (\<lambda>l. 0 < el_size l) lines)) s)
           (map el_size (filter (\<lambda>l. 0 < el_size l) lines)) = Some base"
proof -
  define sizes where "sizes = map el_size (filter (\<lambda>l. 0 < el_size l) lines)"
  let ?F = "rev (remdups (rev sizes))"
  let ?c = "count_list sizes"
  have ne: "sizes \<noteq> []" using assms(2) by (simp add: sizes_def)
  then have "?F \<noteq> []" by simp
  then obtain k ks where F: "?F = k # ks" by (cases ?F) auto
  have C: "Counter sizes = (k, ?c k) # map (\<lambda>s. (s, ?c s)) ks"
    unfolding Counter_char F by simp
  have "analyze_font_distribution lines =
      (case most_common_1 (Counter sizes) of
         [] \<Rightarrow> Inl IndexError
       | (base_size, _) # _ \<Rightarrow>
           Inr (take 3 (sorted_set_desc (map fst (filter (\<lambda>(size, n). base_size < size \<and>
                  of_nat n < of_nat (length lines) * (4 / 10 :: rat)) (Counter sizes)))), base_size))"
    using ne unfolding analyze_font_distribution_def sizes_def[symmetric] Let_def by simp
  then have b: "base = fst (max_count (k, ?c k) (map (\<lambda>s. (s, ?c s)) ks))"
    using assms(1) unfolding C most_common_1_def by (auto split: prod.splits)
  have e: "set (k # ks) = set sizes"
    using F by (metis set_remdups set_rev)
  note m = max_count_find[of k ks ?c, unfolded e, folded F]
  have "find (\<lambda>s. \<forall>t \<in> set sizes. ?c t \<le> ?c s) ?F = Some base"
    unfolding b by (rule m)
  then show ?thesis unfolding sizes_def[symmetric] by (simp only: find_first_seen)
qed

lemma last_insort_key:
  "last (insort_key f x zs) = (if \<forall>z \<in> set zs. f z < f x then x else last zs)"
  by (induction zs) (auto simp: not_le)

lemma last_sort_key_find:
  "ys \<noteq> [] \<Longrightarrow>
   find (\<lambda>c. \<forall>c' \<in> set ys. f c' \<le> f c) (rev ys) = Some (last (sort_key f ys))"
proof (induction ys)
  case Nil
  then show ?case by simp
next
  case (Cons y ys)
  have l: "last (sort_key f (y # ys)) =
      (if \<forall>z \<in> set ys. f z < f y then y else last (sort_key f ys))"
    by (simp add: last_insort_key)
  show ?case
  proof (cases "\<forall>z \<in> set ys. f z < f y")
    case True
    have "find (\<lambda>c. \<forall>c' \<in> set (y # ys). f c' \<le> f c) (rev ys) = None"
      using True by (auto simp: find_None_iff not_le)
    moreover have "\<forall>c' \<in> set (y # ys). f c' \<le> f y"
      using True by auto
    then have "find (\<lambda>c. \<forall>c' \<in> set (y # ys). f c' \<le> f c) [y] = Some y"
      by (rule find_hit)
    ultimately have "find (\<lambda>c. \<forall>c' \<in> set (y # ys). f c' \<le> f c) (rev (y # ys)) = Some y"
      by (simp only: rev.simps find_append option.case)
    then show ?thesis unfolding l if_P[OF True] .
  next
    case False
    then have ne: "ys \<noteq> []" by auto
    have "find (\<lambda>c. \<forall>c' \<in> set (y # ys). f c' \<le> f c) (rev ys) =
          find (\<lambda>c. \<forall>c' \<in> set ys. f c' \<le> f c) (rev ys)"
      using False by (intro find_cong) (auto simp: not_less intro: order_trans)
    also have "\<dots> = Some (last (sort_key f ys))"
      by (rule Cons.IH[OF ne])
    finally have "find (\<lambda>c. \<forall>c' \<in> set (y # ys). f c' \<le> f c) (rev (y # ys)) =
        Some (last (sort_key f ys))"
      by (simp only: rev.simps find_append option.case)
    then show ?thesis unfolding l if_not_P[OF False] .
  qed
qed

lemma get_title_first_largest:
  assumes "cand = title_candidates first_page"
  shows "get_title (first_page # rest) =
     (case find (\<lambda>c. \<forall>c' \<in> set cand. fst c' \<le> fst c) cand of None \<Rightarrow> [] | Some c \<Rightarrow> snd c)"
proof (cases "cand = []")
  case True
  then show ?thesis using assms by (simp add: get_title_def sorted_by_size_desc_def)
next
  case False
  then have ne: "rev cand \<noteq> []" by simp
  have "sort_key fst (rev cand) \<noteq> []"
    using ne by (metis length_sort length_0_conv)
  then have "sorted_by_size_desc cand =
      last (sort_key fst (rev cand)) # tl (rev (sort_key fst (rev cand)))"
    unfolding sorted_by_size_desc_def
    by (metis hd_rev list.collapse rev_is_Nil_conv)
  moreover have "find (\<lambda>c. \<forall>c' \<in> set cand. fst c' \<le> fst c) cand =
      Some (last (sort_key fst (rev cand)))"
    using last_sort_key_find[OF ne, of fst] by simp
  ultimately show ?thesis using assms
    by (simp add: get_title_def split: prod.splits)
qed

lemma sorted_set_desc_order_free: "set xs = set ys \<Longrightarrow> sorted_set_desc xs = sorted_set_desc ys"
proof -
  assume "set xs = set ys"
  then have "sorted_list_of_set (set xs) = sorted_list_of_set (set ys)" by simp
  then show ?thesis
    by (simp only: sorted_set_desc_def sorted_list_of_set_sort_remdups)
qed

text \<open>
  Claim C10 (determinism of the pipeline): every stage is a function of the fragment
  sequence, so that two runs on the same input agree; the one place where the code
  iterates over a hash set, \<open>sorted(set(significant_sizes))\<close>, gives a result that depends
  on the elements only, not on their order; and the two tie-breaks are resolved to the
  first element encountered: the base size is the first size, in line order, among the
  sizes of maximal frequency, and the title is the text of the first candidate, in page
  order, among the candidates of maximal size.
\<close>

theorem tie_breaks_first_encountered:
  "(let sizes = map el_size (filter (\<lambda>l. 0 < el_size l) lines)
    in sizes \<noteq> [] \<longrightarrow>
         (\<exists>sig base. analyze_font_distribution lines = Inr (sig, base) \<and>
            first_most_frequent sizes = Some base)) \<and>
   get_title (first_page # rest) =
     (case first_largest (title_candidates first_page) of None \<Rightarrow> [] | Some c \<Rightarrow> snd c) \<and>
   (set xs = set ys \<longrightarrow> sorted_set_desc xs = sorted_set_desc ys)"
proof -
  have "let sizes = map el_size (filter (\<lambda>l. 0 < el_size l) lines)
    in sizes \<noteq> [] \<longrightarrow>
         (\<exists>sig base. analyze_font_distribution lines = Inr (sig, base) \<and>
            first_most_frequent sizes = Some base)"
    unfolding Let_def first_most_frequent_def
    using analyze_total[of lines] base_size_first_most_frequent[of lines] by blast
  moreover have "get_title (first_page # rest) =
     (case first_largest (title_candidates first_page) of None \<Rightarrow> [] | Some c \<Rightarrow> snd c)"
    unfolding first_largest_def by (rule get_title_first_largest) simp
  ultimately show ?thesis
    using sorted_set_desc_order_free[of xs ys] by blast
qed

theorem tie_breaks_first_encountered_witness:
  "analyze_font_distribution ex_tie_lines = Inr ([], 10) \<and>
   first_most_frequent [10, 12, 12, 10] = Some 10 \<and>
   get_title [ex_title_page] = ''First long title'' \<and>
   sorted_set_desc [18, 24, 18] = sorted_set_desc [24, 18]"
proof -
  have a: "analyze_font_distribution ex_tie_lines = Inr ([], 10)"
    by code_simp
  have s: "map el_size (filter (\<lambda>l. 0 < el_size l) ex_tie_lines) = [10, 12, 12, 10]"
    by code_simp
  have f: "first_largest (title_candidates ex_title_page) = Some (12, ''First long title'')"
    by code_simp
  have e: "set [18, 24, 18 :: rat] = set [24, 18]"
    by auto
  from tie_breaks_first_encountered[of ex_tie_lines ex_title_page "[]" "[18, 24, 18]" "[24, 18]"]
  show ?thesis
    unfolding Let_def s a f using e by simp
qed

end
